theory Spec2Isabelle
  imports Main "HOL-Library.Monad_Syntax"
begin

section \<open>Strings and character classes\<close>

text \<open>
  Python \<open>str\<close> values are modelled as \<open>string\<close> (a list of 8-bit characters). The
  character classes of \<open>str.strip\<close>, \<open>str.lower\<close> and of the regular expressions are
  given for the ASCII range; a byte above 127 (a piece of a UTF-8 sequence) is neither
  whitespace, nor a letter, nor a word character. The model therefore agrees with the
  program on ASCII text.
\<close>

definition is_space :: "char \<Rightarrow> bool" where
  "is_space c = (c \<in> set [CHR 0x09, CHR 0x0A, CHR 0x0B, CHR 0x0C, CHR 0x0D,
                            CHR 0x1C, CHR 0x1D, CHR 0x1E, CHR 0x1F, CHR 0x20])"

definition is_upper :: "char \<Rightarrow> bool" where
  "is_upper c = (65 \<le> (of_char c :: nat) \<and> (of_char c :: nat) \<le> 90)"

definition is_lower :: "char \<Rightarrow> bool" where
  "is_lower c = (97 \<le> (of_char c :: nat) \<and> (of_char c :: nat) \<le> 122)"

definition is_digit :: "char \<Rightarrow> bool" where
  "is_digit c = (48 \<le> (of_char c :: nat) \<and> (of_char c :: nat) \<le> 57)"

text \<open>The class \<open>\w\<close>: letters, digits and the underscore.\<close>

definition is_word :: "char \<Rightarrow> bool" where
  "is_word c = (is_upper c \<or> is_lower c \<or> is_digit c \<or> c = CHR ''_'')"

text \<open>\<open>str.strip()\<close>: whitespace removed at both ends.\<close>

definition strip :: "string \<Rightarrow> string" where
  "strip s = rev (dropWhile is_space (rev (dropWhile is_space s)))"

text \<open>\<open>str.lower()\<close>.\<close>

definition lower_char :: "char \<Rightarrow> char" where
  "lower_char c = (if is_upper c then char_of ((of_char c :: nat) + 32) else c)"

definition lower :: "string \<Rightarrow> string" where
  "lower s = map lower_char s"

text \<open>\<open>sep.join(xs)\<close>.\<close>

fun join :: "string \<Rightarrow> string list \<Rightarrow> string" where
  "join sep [] = []"
| "join sep [x] = x"
| "join sep (x # y # xs) = x @ sep @ join sep (y # xs)"

section \<open>Topic Sanitizer: \<open>demeta_tags\<close>\<close>

definition meta_ban :: "string set" where
  "meta_ban = {''json'', ''planner'', ''reviewer'', ''finalizer'', ''agent'', ''llm'',
               ''model'', ''prompt''}"

definition stop :: "string set" where
  "stop = {''the'', ''and'', ''with'', ''from'', ''that'', ''this'', ''into'', ''over'',
           ''under'', ''long'', ''term'', ''about'', ''your'', ''their'', ''very'', ''much'',
           ''more'', ''health'', ''wellness''}"

text \<open>The class \<open>[a-z\-']\<close> of the tokenising expression \<open>[a-z][a-z\-']{3,}\<close>.\<close>

definition is_tail :: "char \<Rightarrow> bool" where
  "is_tail c = (is_lower c \<or> c = CHR ''-'' \<or> c = CHR 0x27)"

text \<open>
  \<open>re.findall(r"[a-z][a-z\-']{3,}", text)\<close>: scanning from the left, a match starts at a
  lowercase letter followed by at least three characters of the tail class, takes the
  longest run of them, and the scan resumes behind the match; otherwise the scan moves on
  by one character.
\<close>

function findall_topic :: "string \<Rightarrow> string list" where
  "findall_topic [] = []"
| "findall_topic (c # cs) =
     (if is_lower c \<and> 3 \<le> length (takeWhile is_tail cs)
      then (c # takeWhile is_tail cs) # findall_topic (dropWhile is_tail cs)
      else findall_topic cs)"
  by pat_completeness auto
termination
  by (relation "measure length") (auto simp: less_Suc_eq_le length_dropWhile_le)

text \<open>
  \<open>collections.Counter\<close> over an iterable: a dictionary in insertion order, modelled as
  an association list with distinct keys. \<open>most_common()\<close> sorts the items by count,
  largest first, with a stable sort, so equal counts keep their insertion order.
\<close>

fun counter_add :: "string \<Rightarrow> (string \<times> nat) list \<Rightarrow> (string \<times> nat) list" where
  "counter_add w [] = [(w, 1)]"
| "counter_add w ((k, n) # m) = (if k = w then (k, Suc n) # m else (k, n) # counter_add w m)"

definition Counter :: "string list \<Rightarrow> (string \<times> nat) list" where
  "Counter ws = foldl (\<lambda>m w. counter_add w m) [] ws"

definition most_common :: "(string \<times> nat) list \<Rightarrow> (string \<times> nat) list" where
  "most_common m = sort_key (\<lambda>kv. - int (snd kv)) m"

text \<open>The loop of lines 147 to 151: stop at three tags, append a word not yet kept.\<close>

fun backfill :: "string list \<Rightarrow> (string \<times> nat) list \<Rightarrow> string list" where
  "backfill keep [] = keep"
| "backfill keep ((w, n) # rest) =
     (if length keep = 3 then keep
      else if w \<notin> set keep then backfill (keep @ [w]) rest
      else backfill keep rest)"

definition topic_words :: "string \<Rightarrow> string \<Rightarrow> string list" where
  "topic_words title content =
     filter (\<lambda>w. w \<notin> stop) (findall_topic (lower (title @ '' '' @ content)))"

definition demeta_tags :: "string list \<Rightarrow> string \<Rightarrow> string \<Rightarrow> string list" where
  "demeta_tags tags title content =
     (let keep = filter (\<lambda>t. t \<notin> meta_ban) tags in
      if length keep < 3
      then take 3 (backfill keep (most_common (Counter (topic_words title content))))
      else take 3 keep)"

section \<open>Schema Model: \<open>DataBlock\<close> and \<open>AgentJSON\<close>\<close>

record DataBlock =
  tags :: "string list"
  summary :: string
  issues :: "string list"

record AgentJSON =
  thought :: string
  message :: string
  data :: DataBlock

subsection \<open>Word tokens: \<open>word_count\<close>\<close>

text \<open>The class \<open>[\w'-]\<close> of the expression \<open>\b\w[\w'-]*\b\<close>.\<close>

definition is_tok :: "char \<Rightarrow> bool" where
  "is_tok c = (is_word c \<or> c = CHR 0x27 \<or> c = CHR ''-'')"

text \<open>
  The closing \<open>\b\<close> makes the greedy run \<open>[\w'-]*\<close> give back the apostrophes and
  hyphens at its end: the match ends behind the last word character of the run.
\<close>

definition trim_tok :: "string \<Rightarrow> string" where
  "trim_tok run = rev (dropWhile (\<lambda>c. \<not> is_word c) (rev run))"

text \<open>
  \<open>re.findall(r"\b\w[\w'-]*\b", s)\<close>. A match starts at a word character; the scan only
  looks at one at the start of the string, behind a skipped non-word character or behind a
  run, so the opening \<open>\b\<close> holds there. The characters given back by the match are not
  word characters, so resuming behind the run finds the same matches as resuming behind
  the match.
\<close>

function findall_words :: "string \<Rightarrow> string list" where
  "findall_words [] = []"
| "findall_words (c # cs) =
     (if is_word c
      then trim_tok (c # takeWhile is_tok cs) # findall_words (dropWhile is_tok cs)
      else findall_words cs)"
  by pat_completeness auto
termination
  by (relation "measure length") (auto simp: less_Suc_eq_le length_dropWhile_le)

definition word_count :: "string \<Rightarrow> nat" where
  "word_count s = length (findall_words s)"

subsection \<open>\<open>DataBlock._three_tags\<close>\<close>

text \<open>The alternatives of \<open>\b(here|the|an|a|and|of|about|topic|content|article|post)\b\<close>, in order.\<close>

definition tag_stopwords :: "string list" where
  "tag_stopwords = [''here'', ''the'', ''an'', ''a'', ''and'', ''of'', ''about'', ''topic'',
                    ''content'', ''article'', ''post'']"

text \<open>
  \<open>\b\<close> between the character before a position (\<open>prev_word\<close> tells whether it is a
  word character; the start of the string is not) and the rest of the string.
\<close>

definition boundary :: "bool \<Rightarrow> string \<Rightarrow> bool" where
  "boundary prev_word rest = (prev_word \<noteq> (case rest of [] \<Rightarrow> False | c # _ \<Rightarrow> is_word c))"

text \<open>The first alternative that matches at the start of \<open>s\<close> with \<open>\b\<close> behind it.\<close>

fun match_alt :: "string list \<Rightarrow> string \<Rightarrow> string option" where
  "match_alt [] s = None"
| "match_alt (w # ws) s =
     (if take (length w) s = w \<and> boundary (is_word (last w)) (drop (length w) s)
      then Some w else match_alt ws s)"

text \<open>
  \<open>re.sub(r"\b(here|...|post)\b", "", t)\<close>. \<open>skip\<close> counts the characters of the current
  match that are still to be deleted; a new match is only tried when it is zero.
\<close>

fun sub_stopwords :: "nat \<Rightarrow> bool \<Rightarrow> string \<Rightarrow> string" where
  "sub_stopwords skip prev_word [] = []"
| "sub_stopwords (Suc k) prev_word (c # cs) = sub_stopwords k (is_word c) cs"
| "sub_stopwords 0 prev_word (c # cs) =
     (case (if boundary prev_word (c # cs) then match_alt tag_stopwords (c # cs) else None) of
        Some w \<Rightarrow> sub_stopwords (length w - 1) (is_word c) cs
      | None \<Rightarrow> c # sub_stopwords 0 (is_word c) cs)"

text \<open>The loop of lines 29 to 38, with its two accumulators \<open>clean\<close> and \<open>seen\<close>.\<close>

fun three_tags_loop :: "string list \<Rightarrow> string list \<Rightarrow> string set \<Rightarrow> string list" where
  "three_tags_loop [] clean seen = clean"
| "three_tags_loop (t # v) clean seen =
     (let t1 = lower (strip t) in
      if t1 = [] \<or> t1 \<in> meta_ban then three_tags_loop v clean seen
      else
        let t2 = strip (sub_stopwords 0 False t1);
            fresh = (t2 \<noteq> [] \<and> t2 \<notin> seen);
            clean' = (if fresh then clean @ [t2] else clean);
            seen' = (if fresh then insert t2 seen else seen)
        in if length clean' = 3 then clean' else three_tags_loop v clean' seen')"

definition three_tags :: "string list \<Rightarrow> string list" where
  "three_tags v = take 3 (three_tags_loop v [] {})"

subsection \<open>\<open>DataBlock._limit_25\<close>\<close>

text \<open>
  The pieces of the two preamble expressions, each taking the rest of the string to the rest
  behind its match (\<open>None\<close>: no match). \<open>\s*\<close> and \<open>\s+\<close> are greedy and are followed
  by a character that is not whitespace, so giving whitespace back never helps; \<open>.*?:\<close> stops
  at the first colon and cannot cross a newline (no DOTALL); the literals are matched
  ignoring case (\<open>re.I\<close>).
\<close>

definition spaces0 :: "string \<Rightarrow> string option" where
  "spaces0 s = Some (dropWhile is_space s)"

definition spaces1 :: "string \<Rightarrow> string option" where
  "spaces1 s = (case s of [] \<Rightarrow> None
                | c # cs \<Rightarrow> if is_space c then Some (dropWhile is_space cs) else None)"

definition lit_ci :: "string \<Rightarrow> string \<Rightarrow> string option" where
  "lit_ci w s = (if lower (take (length w) s) = w then Some (drop (length w) s) else None)"

fun lit_ci_alt :: "string list \<Rightarrow> string \<Rightarrow> string option" where
  "lit_ci_alt [] s = None"
| "lit_ci_alt (w # ws) s = (case lit_ci w s of Some r \<Rightarrow> Some r | None \<Rightarrow> lit_ci_alt ws s)"

definition lazy_to_colon :: "string \<Rightarrow> string option" where
  "lazy_to_colon s =
     (case dropWhile (\<lambda>c. c \<noteq> CHR '':'' \<and> c \<noteq> CHR 0x0A) s of
        [] \<Rightarrow> None
      | c # r \<Rightarrow> if c = CHR '':'' then Some r else None)"

text \<open>\<open>^\s*here\s+is\s+the\s+paraphrased.*?:\s*\<close>\<close>

definition match_paraphrased :: "string \<Rightarrow> string option" where
  "match_paraphrased v = do {
     r \<leftarrow> spaces0 v; r \<leftarrow> lit_ci ''here'' r;
     r \<leftarrow> spaces1 r; r \<leftarrow> lit_ci ''is'' r;
     r \<leftarrow> spaces1 r; r \<leftarrow> lit_ci ''the'' r;
     r \<leftarrow> spaces1 r; r \<leftarrow> lit_ci ''paraphrased'' r;
     r \<leftarrow> lazy_to_colon r; spaces0 r }"

text \<open>\<open>^\s*(this|the)\s+(article|post|content)\s+.*?:\s*\<close>\<close>

definition match_this_article :: "string \<Rightarrow> string option" where
  "match_this_article v = do {
     r \<leftarrow> spaces0 v; r \<leftarrow> lit_ci_alt [''this'', ''the''] r;
     r \<leftarrow> spaces1 r; r \<leftarrow> lit_ci_alt [''article'', ''post'', ''content''] r;
     r \<leftarrow> spaces1 r;
     r \<leftarrow> lazy_to_colon r; spaces0 r }"

text \<open>\<open>re.sub\<close> of an expression anchored at the start: the match is cut off, if there is one.\<close>

definition sub_prefix :: "(string \<Rightarrow> string option) \<Rightarrow> string \<Rightarrow> string" where
  "sub_prefix m v = (case m v of Some r \<Rightarrow> r | None \<Rightarrow> v)"

definition limit_25 :: "string \<Rightarrow> string" where
  "limit_25 v =
     (let v = sub_prefix match_paraphrased v;
          v = sub_prefix match_this_article v;
          words = findall_words (strip v)
      in join '' '' (take 25 words))"

subsection \<open>\<open>AgentJSON._ensure_message\<close>\<close>

text \<open>The character U+2264 of the default message, in UTF-8.\<close>

definition le_sign :: string where
  "le_sign = [CHR 0xE2, CHR 0x89, CHR 0xA4]"

definition default_message :: string where
  "default_message =
     ''Draft analyzed and improved; provided concise tags and a '' @ le_sign @
     ''25-word summary.''"

definition ensure_message :: "string \<Rightarrow> string" where
  "ensure_message v = (let v = strip v in if v \<noteq> [] then v else default_message)"

subsection \<open>Construction and validation\<close>

text \<open>
  The constructors called with Python values of the right types, as in the fallback of
  \<open>call_agent\<close>: the field validators run on the arguments.
\<close>

definition new_DataBlock :: "string list \<Rightarrow> string \<Rightarrow> string list \<Rightarrow> DataBlock" where
  "new_DataBlock t s i = \<lparr>tags = three_tags t, summary = limit_25 s, issues = i\<rparr>"

definition new_AgentJSON :: "string \<Rightarrow> string \<Rightarrow> DataBlock \<Rightarrow> AgentJSON" where
  "new_AgentJSON th m d = \<lparr>thought = th, message = ensure_message m, data = d\<rparr>"

text \<open>
  What \<open>json.loads\<close> returns. An object is a Python dictionary, given as the list of its
  items: the keys are distinct, and \<open>map_of\<close> looks one up. A float is kept as a
  mantissa and an exponent; no field of the schema takes a number.
\<close>

datatype json =
    JNull
  | JBool bool
  | JInt int
  | JFloat int int
  | JString string
  | JArray "json list"
  | JObject "(string \<times> json) list"

text \<open>
  The exceptions of the program: of \<open>json.loads\<close>, of \<open>**\<close> on a value that is not a
  mapping, of the schema library, of \<open>re\<close> (with its message), and of the backend.
\<close>

datatype py_error =
    JSONDecodeError
  | TypeError
  | ValidationError
  | ReError string
  | BackendError string

text \<open>
  Validation of a field against its annotation (\<open>None\<close>: the field is in error). A \<open>str\<close>
  field takes a JSON string only, a \<open>List[str]\<close> field a JSON array of strings only.
\<close>

fun as_str :: "json \<Rightarrow> string option" where
  "as_str (JString s) = Some s"
| "as_str _ = None"

fun as_strs :: "json list \<Rightarrow> string list option" where
  "as_strs [] = Some []"
| "as_strs (x # xs) =
     (case as_str x of None \<Rightarrow> None
      | Some s \<Rightarrow> (case as_strs xs of None \<Rightarrow> None | Some ss \<Rightarrow> Some (s # ss)))"

fun as_str_list :: "json \<Rightarrow> string list option" where
  "as_str_list (JArray xs) = as_strs xs"
| "as_str_list _ = None"

text \<open>
  A \<open>DataBlock\<close> field from a JSON value: \<open>tags\<close> and \<open>summary\<close> are required, \<open>issues\<close>
  defaults to the empty list, other keys are ignored.
\<close>

definition validate_DataBlock :: "json \<Rightarrow> DataBlock option" where
  "validate_DataBlock j =
     (case j of
        JObject kv \<Rightarrow> do {
          tj \<leftarrow> map_of kv ''tags'';
          t \<leftarrow> as_str_list tj;
          sj \<leftarrow> map_of kv ''summary'';
          s \<leftarrow> as_str sj;
          i \<leftarrow> (case map_of kv ''issues'' of None \<Rightarrow> Some [] | Some ij \<Rightarrow> as_str_list ij);
          Some (new_DataBlock t s i) }
      | _ \<Rightarrow> None)"

definition validate_AgentJSON :: "(string \<times> json) list \<Rightarrow> AgentJSON option" where
  "validate_AgentJSON kv = do {
     tj \<leftarrow> map_of kv ''thought'';
     th \<leftarrow> as_str tj;
     mj \<leftarrow> map_of kv ''message'';
     m \<leftarrow> as_str mj;
     dj \<leftarrow> map_of kv ''data'';
     d \<leftarrow> validate_DataBlock dj;
     Some (new_AgentJSON th m d) }"

text \<open>
  \<open>AgentJSON(**obj)\<close>: \<open>**\<close> of a value that is not a dictionary raises \<open>TypeError\<close>,
  a dictionary that does not validate raises \<open>ValidationError\<close>.
\<close>

definition AgentJSON_of :: "json \<Rightarrow> py_error + AgentJSON" where
  "AgentJSON_of obj =
     (case obj of
        JObject kv \<Rightarrow>
          (case validate_AgentJSON kv of None \<Rightarrow> Inl ValidationError | Some a \<Rightarrow> Inr a)
      | _ \<Rightarrow> Inl TypeError)"

section \<open>JSON Extractor: \<open>sanitize_json_text\<close>\<close>

text \<open>
  \<open>json.loads\<close> is library code. It is a parameter \<open>loads\<close> of the model: \<open>None\<close>
  stands for the exception it raises on a text that is not JSON.
\<close>

type_synonym json_decoder = "string \<Rightarrow> json option"

text \<open>The expression of line 80: \<open>\{(?:[^{}]|(?R))*\}\<close>.\<close>

definition brace_pattern :: string where
  "brace_pattern = [CHR 0x5C] @ ''{(?:[^{}]|(?R))*'' @ [CHR 0x5C] @ ''}''"

text \<open>
  The module \<open>re\<close> of the standard library compiles an expression before it matches.
  Its parser accepts behind \<open>(?\<close> only the characters below (group kinds and flags) and
  raises \<open>re.error\<close> on any other. \<open>re_scan\<close> follows the parser over the constructs
  this expression uses: escapes, character classes and groups.
\<close>

definition re_known_ext :: "char \<Rightarrow> bool" where
  "re_known_ext c = (c \<in> set ''P:#=!<(>-iLmsxatu'')"

fun re_scan :: "bool \<Rightarrow> string \<Rightarrow> py_error + unit" where
  "re_scan in_class [] = Inr ()"
| "re_scan in_class [c] = Inr ()"
| "re_scan in_class (c # d # rest) =
     (if c = CHR 0x5C then re_scan in_class rest
      else if in_class then re_scan (c \<noteq> CHR '']'') (d # rest)
      else if c = CHR ''['' then re_scan True (d # rest)
      else if c = CHR ''('' \<and> d = CHR ''?'' then
        (case rest of
           [] \<Rightarrow> Inl (ReError ''unexpected end of pattern'')
         | e # _ \<Rightarrow> if re_known_ext e then re_scan False rest
                    else Inl (ReError (''unknown extension ?'' @ [e])))
      else re_scan False (d # rest))"

definition re_compile :: "string \<Rightarrow> py_error + unit" where
  "re_compile p = re_scan False p"

text \<open>
  Modelled from the spec: what the recursive expression is meant to find (4.2, step 2),
  the first substring that starts at a \<open>{\<close> and ends at its matching \<open>}\<close>, by counting
  the nesting depth. It stands in the branch behind a successful compilation.
\<close>

fun balanced_end :: "nat \<Rightarrow> string \<Rightarrow> nat option" where
  "balanced_end depth [] = None"
| "balanced_end depth (c # cs) =
     (if c = CHR ''{'' then map_option Suc (balanced_end (Suc depth) cs)
      else if c = CHR ''}'' then
        (if depth \<le> 1 then Some 1 else map_option Suc (balanced_end (depth - 1) cs))
      else map_option Suc (balanced_end depth cs))"

fun first_balanced :: "string \<Rightarrow> string option" where
  "first_balanced [] = None"
| "first_balanced (c # cs) =
     (if c = CHR ''{'' then
        (case balanced_end 1 cs of
           Some n \<Rightarrow> Some (c # take n cs)
         | None \<Rightarrow> first_balanced cs)
      else first_balanced cs)"

text \<open>\<open>re.search(pattern, text, re.DOTALL)\<close> and \<open>m.group(0)\<close>.\<close>

definition re_search :: "string \<Rightarrow> string \<Rightarrow> py_error + string option" where
  "re_search pattern text =
     (case re_compile pattern of
        Inl e \<Rightarrow> Inl e
      | Inr _ \<Rightarrow> Inr (first_balanced text))"

definition sanitize_json_text :: "json_decoder \<Rightarrow> string \<Rightarrow> py_error + string" where
  "sanitize_json_text loads text0 =
     (let text = strip text0 in
      case loads text of
        Some _ \<Rightarrow> Inr text
      | None \<Rightarrow>
          (case re_search brace_pattern text of
             Inl e \<Rightarrow> Inl e
           | Inr None \<Rightarrow> Inr text
           | Inr (Some m) \<Rightarrow> Inr m))"

section \<open>Repair Loop: \<open>call_agent\<close>\<close>

text \<open>
  The backend \<open>llm.invoke\<close> is a parameter: from its own state and the two prompts to
  the text of the response, or the exception it raises, and its next state. The number of
  invocations made so far is carried along with the backend's state.
\<close>

type_synonym 's backend = "'s \<Rightarrow> string \<Rightarrow> string \<Rightarrow> (py_error + string) \<times> 's"

definition invoke ::
  "'s backend \<Rightarrow> string \<Rightarrow> string \<Rightarrow> 's \<times> nat \<Rightarrow> (py_error + string) \<times> ('s \<times> nat)" where
  "invoke llm sys_msg hum_msg w =
     (case llm (fst w) sys_msg hum_msg of (r, s') \<Rightarrow> (r, (s', Suc (snd w))))"

definition nl :: string where
  "nl = [CHR 0x0A]"

definition dq :: string where
  "dq = [CHR 0x22]"

definition repair_prompt :: "string \<Rightarrow> string" where
  "repair_prompt candidate =
     ''Your previous response was invalid JSON for the required schema. '' @
     ''Return STRICT JSON ONLY with shape:'' @ nl @
     ''{ '' @ dq @ ''thought'' @ dq @ '': str, '' @ dq @ ''message'' @ dq @ '': str, '' @
     dq @ ''data'' @ dq @ '': { '' @ dq @ ''tags'' @ dq @ '':[str,str,str], '' @
     dq @ ''summary'' @ dq @ '': str, '' @ dq @ ''issues'' @ dq @ '':[str,...] } }'' @ nl @
     ''Constraints:'' @ nl @
     ''- Exactly 3 concise, lowercase, topic-derived tags (no meta: json/planner/reviewer/finalizer/agent/llm)'' @ nl @
     ''- Summary '' @ le_sign @ '' 25 words, no filler'' @ nl @
     ''Fix this JSON now:'' @ nl @
     candidate"

definition fallback :: AgentJSON where
  "fallback =
     new_AgentJSON ''Fallback''
       (''Draft analyzed and improved; provided concise tags and a '' @ le_sign @
        ''25-word summary.'')
       (new_DataBlock [] ''Concise summary not provided by the model'' [''autofix''])"

text \<open>\<open>AgentJSON(**json.loads(candidate))\<close>, the body of the \<open>try\<close>.\<close>

definition parse_validate :: "json_decoder \<Rightarrow> string \<Rightarrow> py_error + AgentJSON" where
  "parse_validate loads candidate =
     (case loads candidate of
        None \<Rightarrow> Inl JSONDecodeError
      | Some obj \<Rightarrow> AgentJSON_of obj)"

text \<open>
  The loop \<open>for k in range(max_repairs + 1)\<close> over the remaining values of \<open>k\<close>. The
  handler catches every exception of the \<open>try\<close> body; an exception raised inside the
  handler (by the backend or by \<open>sanitize_json_text\<close>) leaves \<open>call_agent\<close>. When the
  range is used up the function ends without a \<open>return\<close>: the result is Python's \<open>None\<close>.
\<close>

fun repair_loop ::
  "json_decoder \<Rightarrow> 's backend \<Rightarrow> string \<Rightarrow> int \<Rightarrow> int list \<Rightarrow> string \<Rightarrow> 's \<times> nat \<Rightarrow>
   (py_error + AgentJSON option) \<times> ('s \<times> nat)" where
  "repair_loop loads llm system_prompt max_repairs [] candidate w = (Inr None, w)"
| "repair_loop loads llm system_prompt max_repairs (k # ks) candidate w =
     (case parse_validate loads candidate of
        Inr a \<Rightarrow> (Inr (Some a), w)
      | Inl _ \<Rightarrow>
          if k = max_repairs then (Inr (Some fallback), w)
          else
            (case invoke llm system_prompt (repair_prompt candidate) w of
               (Inl e, w') \<Rightarrow> (Inl e, w')
             | (Inr raw, w') \<Rightarrow>
                 (case sanitize_json_text loads raw of
                    Inl e \<Rightarrow> (Inl e, w')
                  | Inr candidate' \<Rightarrow>
                      repair_loop loads llm system_prompt max_repairs ks candidate' w')))"

definition call_agent ::
  "json_decoder \<Rightarrow> 's backend \<Rightarrow> string \<Rightarrow> string \<Rightarrow> int \<Rightarrow> 's \<times> nat \<Rightarrow>
   (py_error + AgentJSON option) \<times> ('s \<times> nat)" where
  "call_agent loads llm system_prompt human_prompt max_repairs w =
     (case invoke llm system_prompt human_prompt w of
        (Inl e, w') \<Rightarrow> (Inl e, w')
      | (Inr raw, w') \<Rightarrow>
          (case sanitize_json_text loads raw of
             Inl e \<Rightarrow> (Inl e, w')
           | Inr candidate \<Rightarrow>
               repair_loop loads llm system_prompt max_repairs [0..max_repairs] candidate w'))"

section \<open>The required shape and sample data\<close>

text \<open>
  The required JSON shape in the words of the specification (sections 4.1 and 6), as a
  predicate on a decoded value: an object with string fields \<open>thought\<close> and \<open>message\<close>
  and an object field \<open>data\<close>, whose \<open>tags\<close> is an array of strings of any length, whose
  \<open>summary\<close> is a string and whose \<open>issues\<close>, when present, is an array of strings.
\<close>

fun is_string :: "json \<Rightarrow> bool" where
  "is_string (JString s) = True"
| "is_string _ = False"

fun is_string_array :: "json \<Rightarrow> bool" where
  "is_string_array (JArray xs) = list_all is_string xs"
| "is_string_array _ = False"

definition has_field :: "(string \<times> json) list \<Rightarrow> string \<Rightarrow> (json \<Rightarrow> bool) \<Rightarrow> bool" where
  "has_field kv k P = (case map_of kv k of None \<Rightarrow> False | Some v \<Rightarrow> P v)"

definition data_shape :: "json \<Rightarrow> bool" where
  "data_shape j =
     (case j of
        JObject kv \<Rightarrow>
          has_field kv ''tags'' is_string_array \<and> has_field kv ''summary'' is_string \<and>
          (case map_of kv ''issues'' of None \<Rightarrow> True | Some v \<Rightarrow> is_string_array v)
      | _ \<Rightarrow> False)"

definition required_shape :: "json \<Rightarrow> bool" where
  "required_shape j =
     (case j of
        JObject kv \<Rightarrow>
          has_field kv ''thought'' is_string \<and> has_field kv ''message'' is_string \<and>
          has_field kv ''data'' data_shape
      | _ \<Rightarrow> False)"

text \<open>
  A match of \<open>\b\w[\w'-]*\b\<close>: not empty, word characters at both ends, characters of
  the class \<open>[\w'-]\<close> throughout.
\<close>

definition word_token :: "string \<Rightarrow> bool" where
  "word_token t = (t \<noteq> [] \<and> is_word (hd t) \<and> is_word (last t) \<and> list_all is_tok t)"

text \<open>
  The scenario of section 8 of the specification: the text
  \<open>{"thought":"x","message":"","data":{"tags":["json","health"],"summary":"a b c","issues":[]}}\<close>
  and the value \<open>json.loads\<close> decodes it to.
\<close>

definition sample_text :: string where
  "sample_text =
     ''{'' @ dq @ ''thought'' @ dq @ '':'' @ dq @ ''x'' @ dq @ '','' @
     dq @ ''message'' @ dq @ '':'' @ dq @ dq @ '','' @
     dq @ ''data'' @ dq @ '':{'' @
     dq @ ''tags'' @ dq @ '':['' @ dq @ ''json'' @ dq @ '','' @ dq @ ''health'' @ dq @ ''],'' @
     dq @ ''summary'' @ dq @ '':'' @ dq @ ''a b c'' @ dq @ '','' @
     dq @ ''issues'' @ dq @ '':[]}}''"

definition sample_object :: json where
  "sample_object =
     JObject [(''thought'', JString ''x''), (''message'', JString []),
              (''data'', JObject [(''tags'', JArray [JString ''json'', JString ''health'']),
                                  (''summary'', JString ''a b c''),
                                  (''issues'', JArray [])])]"

definition sample_validated :: AgentJSON where
  "sample_validated =
     \<lparr>thought = ''x'', message = default_message,
      data = \<lparr>tags = [''health''], summary = ''a b c'', issues = []\<rparr>\<rparr>"

text \<open>An object of the required shape with five tags and a summary of thirty words.\<close>

definition long_object :: json where
  "long_object =
     JObject [(''thought'', JString ''plan''), (''message'', JString ''done''),
              (''data'', JObject [(''tags'', JArray [JString ''Sleep'', JString ''focus'',
                                     JString ''memory'', JString ''habits'', JString ''rest'']),
                                  (''summary'', JString
                                     (''a1 a2 a3 a4 a5 a6 a7 a8 a9 a10 a11 a12 a13 a14 a15 '' @
                                      ''a16 a17 a18 a19 a20 a21 a22 a23 a24 a25 a26 a27 a28 a29 a30''))])]"

text \<open>An object that validates although its only tag names the banned word \<open>json\<close>.\<close>

definition the_json_object :: json where
  "the_json_object =
     JObject [(''thought'', JString ''t''), (''message'', JString ''m''),
              (''data'', JObject [(''tags'', JArray [JString ''the json'']),
                                  (''summary'', JString ''s'')])]"

text \<open>
  \<open>json.loads\<close> on the texts of the examples: the sample text, alone and followed by a
  newline, and the empty object. Every other text the examples decode is not JSON.
\<close>

definition sample_loads :: json_decoder where
  "sample_loads =
     map_of [(sample_text, sample_object), (sample_text @ nl, sample_object),
             (''{}'', JObject [])]"

text \<open>
  Two backends for the examples: one that answers from a script, response by response,
  and one that gives the same text to every request.
\<close>

fun scripted_llm :: "(py_error + string) list backend" where
  "scripted_llm [] sys_msg hum_msg = (Inl (BackendError ''no response''), [])"
| "scripted_llm (r # rs) sys_msg hum_msg = (r, rs)"

definition constant_llm :: "string \<Rightarrow> unit backend" where
  "constant_llm raw s sys_msg hum_msg = (Inr raw, s)"

section \<open>Properties of the Topic Sanitizer\<close>

lemma counter_add_keys: "fst ` set (counter_add w m) = insert w (fst ` set m)"
proof (induction m)
  case Nil
  show ?case by simp
next
  case (Cons kv m)
  obtain k n where kv: "kv = (k, n)" by (cases kv)
  show ?case
  proof (cases "k = w")
    case True
    then show ?thesis by (simp add: kv)
  next
    case False
    then show ?thesis using Cons.IH by (simp add: kv insert_commute)
  qed
qed

lemma foldl_counter_keys:
  "fst ` set (foldl (\<lambda>m w. counter_add w m) acc ws) = fst ` set acc \<union> set ws"
  by (induction ws arbitrary: acc) (auto simp: counter_add_keys)

lemma Counter_keys: "fst ` set (Counter ws) = set ws"
  by (simp add: Counter_def foldl_counter_keys)

lemma most_common_keys: "fst ` set (most_common m) = fst ` set m"
  by (simp add: most_common_def)

lemma backfill_subset: "set (backfill keep m) \<subseteq> set keep \<union> fst ` set m"
  by (induction keep m rule: backfill.induct) (auto simp: image_iff)

lemma demeta_tags_length: "length (demeta_tags tgs title content) \<le> 3"
  by (simp add: demeta_tags_def Let_def)

lemma demeta_tags_origin:
  assumes "t \<in> set (demeta_tags tgs title content)"
  shows "(t \<in> set tgs \<and> t \<notin> meta_ban) \<or> t \<in> set (topic_words title content)"
proof (cases "length (filter (\<lambda>t. t \<notin> meta_ban) tgs) < 3")
  case True
  with assms have "t \<in> set (backfill (filter (\<lambda>t. t \<notin> meta_ban) tgs)
                       (most_common (Counter (topic_words title content))))"
    by (auto simp: demeta_tags_def Let_def dest: in_set_takeD)
  then have "t \<in> set (filter (\<lambda>t. t \<notin> meta_ban) tgs) \<union> set (topic_words title content)"
    using backfill_subset most_common_keys Counter_keys by blast
  then show ?thesis by auto
next
  case False
  with assms have "t \<in> set (filter (\<lambda>t. t \<notin> meta_ban) tgs)"
    by (auto simp: demeta_tags_def Let_def dest: in_set_takeD)
  then show ?thesis by auto
qed

lemma demeta_tags_unchanged:
  assumes "length tgs = 3" and "\<forall>t\<in>set tgs. t \<notin> meta_ban"
  shows "demeta_tags tgs title content = tgs"
proof -
  from assms(2) have "filter (\<lambda>t. t \<notin> meta_ban) tgs = tgs"
    by (simp add: filter_id_conv)
  with assms(1) show ?thesis
    by (simp add: demeta_tags_def)
qed

section \<open>Properties of the Schema Model\<close>

lemma is_word_is_tok: "is_word c \<Longrightarrow> is_tok c"
  by (simp add: is_tok_def)

lemma space_not_tok: "\<not> is_tok (CHR '' '')"
  by (simp add: is_tok_def is_word_def is_upper_def is_lower_def is_digit_def)

lemma trim_tok_id: "t \<noteq> [] \<Longrightarrow> is_word (last t) \<Longrightarrow> trim_tok t = t"
  by (cases t rule: rev_cases) (simp_all add: trim_tok_def)

lemma trim_tok_Cons:
  assumes "is_word c"
  shows "\<exists>cs'. trim_tok (c # cs) = c # cs' \<and> set cs' \<subseteq> set cs \<and> is_word (last (c # cs'))"
proof (induction cs rule: rev_induct)
  case Nil
  from assms show ?case by (simp add: trim_tok_def)
next
  case (snoc x xs)
  show ?case
  proof (cases "is_word x")
    case True
    then have "trim_tok (c # xs @ [x]) = c # xs @ [x]"
      by (simp add: trim_tok_def)
    with True show ?thesis by auto
  next
    case False
    then have "trim_tok (c # xs @ [x]) = trim_tok (c # xs)"
      by (simp add: trim_tok_def)
    with snoc show ?thesis by auto
  qed
qed

lemma word_token_trim:
  assumes "is_word c"
  shows "word_token (trim_tok (c # takeWhile is_tok cs))"
proof -
  from trim_tok_Cons [OF assms, of "takeWhile is_tok cs"]
  obtain cs' where t: "trim_tok (c # takeWhile is_tok cs) = c # cs'"
    and sub: "set cs' \<subseteq> set (takeWhile is_tok cs)" and l: "is_word (last (c # cs'))"
    by blast
  have "\<forall>x\<in>set cs'. is_tok x"
    using sub by (auto dest: set_takeWhileD)
  with assms l show ?thesis
    unfolding t word_token_def by (simp add: is_word_is_tok list_all_iff)
qed

lemma findall_words_tokens: "\<forall>t\<in>set (findall_words s). word_token t"
  by (induction s rule: findall_words.induct) (simp_all add: word_token_trim)

lemma findall_words_token_then_space:
  assumes "word_token t"
  shows "findall_words (t @ CHR '' '' # rest) = t # findall_words rest"
proof -
  from assms obtain c cs where t: "t = c # cs" and c: "is_word c"
    and l: "is_word (last (c # cs))" and a: "\<forall>x\<in>set cs. is_tok x"
    by (cases t) (auto simp: word_token_def list_all_iff)
  have tw: "takeWhile is_tok (cs @ CHR '' '' # rest) = cs"
    using a by (simp add: takeWhile_append2 space_not_tok)
  have dw: "dropWhile is_tok (cs @ CHR '' '' # rest) = CHR '' '' # rest"
    using a by (simp add: dropWhile_append2 space_not_tok)
  have sp: "\<not> is_word (CHR '' '')"
    using space_not_tok is_word_is_tok by blast
  have "trim_tok (c # cs) = c # cs"
    using l by (rule trim_tok_id [rotated]) simp
  then show ?thesis
    using c sp by (simp add: t tw dw)
qed

lemma findall_words_token:
  assumes "word_token t"
  shows "findall_words t = [t]"
proof -
  from assms obtain c cs where t: "t = c # cs" and c: "is_word c"
    and l: "is_word (last (c # cs))" and a: "\<forall>x\<in>set cs. is_tok x"
    by (cases t) (auto simp: word_token_def list_all_iff)
  have tw: "takeWhile is_tok cs = cs" using a by (simp add: takeWhile_eq_all_conv)
  have dw: "dropWhile is_tok cs = []" using a by simp
  have "trim_tok (c # cs) = c # cs"
    using l by (rule trim_tok_id [rotated]) simp
  then show ?thesis
    using c by (simp add: t tw dw)
qed

text \<open>Joining tokens with single spaces and tokenising again gives the tokens back.\<close>

lemma findall_words_join:
  "\<forall>t\<in>set ts. word_token t \<Longrightarrow> findall_words (join '' '' ts) = ts"
proof (induction "'' ''" ts rule: join.induct)
  case 1
  show ?case by simp
next
  case (2 x)
  then show ?case by (simp add: findall_words_token)
next
  case (3 x y xs)
  then show ?case by (simp add: findall_words_token_then_space)
qed

lemma word_count_limit_25: "word_count (limit_25 v) \<le> 25"
proof -
  define ws where "ws = take 25 (findall_words (strip (sub_prefix match_this_article
                                 (sub_prefix match_paraphrased v))))"
  have "\<forall>t\<in>set ws. word_token t"
    unfolding ws_def using findall_words_tokens by (blast dest: in_set_takeD)
  then have "findall_words (join '' '' ws) = ws"
    by (rule findall_words_join)
  moreover have "limit_25 v = join '' '' ws"
    by (simp add: limit_25_def ws_def Let_def)
  ultimately show ?thesis
    by (simp add: word_count_def ws_def)
qed

lemma length_three_tags: "length (three_tags v) \<le> 3"
  by (simp add: three_tags_def)

lemma default_message_nonempty: "default_message \<noteq> []"
  by (simp add: default_message_def)

lemma ensure_message_eq:
  "ensure_message v = (if strip v = [] then default_message else strip v)"
  by (simp add: ensure_message_def Let_def)

lemma ensure_message_nonempty: "ensure_message v \<noteq> []"
  by (simp add: ensure_message_eq default_message_nonempty)

lemma as_str_Some: "as_str j = Some s \<Longrightarrow> j = JString s"
  by (cases j) simp_all

lemma is_string_as_str: "is_string j \<Longrightarrow> \<exists>s. as_str j = Some s"
  by (cases j) simp_all

lemma is_strings_as_strs: "list_all is_string xs \<Longrightarrow> \<exists>ss. as_strs xs = Some ss"
proof (induction xs)
  case Nil
  show ?case by simp
next
  case (Cons x xs)
  then obtain s ss where "as_str x = Some s" and "as_strs xs = Some ss"
    using is_string_as_str by fastforce
  then show ?case by simp
qed

lemma is_string_array_as_str_list: "is_string_array j \<Longrightarrow> \<exists>ss. as_str_list j = Some ss"
  by (cases j) (simp_all add: is_strings_as_strs)

lemma validate_AgentJSON_message:
  assumes "validate_AgentJSON kv = Some a"
  shows "\<exists>m. map_of kv ''message'' = Some (JString m) \<and> message a = ensure_message m"
  using assms
  by (auto simp: validate_AgentJSON_def new_AgentJSON_def split: bind_splits dest: as_str_Some)

lemma validate_AgentJSON_data:
  "validate_AgentJSON kv = Some a \<Longrightarrow> \<exists>t s i. data a = new_DataBlock t s i"
  by (auto simp: validate_AgentJSON_def validate_DataBlock_def new_AgentJSON_def
      split: bind_splits json.splits) blast

lemma AgentJSON_of_Inr:
  "AgentJSON_of obj = Inr a \<Longrightarrow> \<exists>kv. obj = JObject kv \<and> validate_AgentJSON kv = Some a"
  by (auto simp: AgentJSON_of_def split: json.splits option.splits)

lemma AgentJSON_of_bounds:
  assumes "AgentJSON_of obj = Inr a"
  shows "length (tags (data a)) \<le> 3 \<and> word_count (summary (data a)) \<le> 25"
proof -
  from assms obtain kv where "validate_AgentJSON kv = Some a"
    using AgentJSON_of_Inr by blast
  then obtain t s i where "data a = new_DataBlock t s i"
    using validate_AgentJSON_data by blast
  then show ?thesis
    by (simp add: new_DataBlock_def length_three_tags word_count_limit_25)
qed

lemma data_shape_validates: "data_shape j \<Longrightarrow> \<exists>d. validate_DataBlock j = Some d"
proof (cases j)
  case (JObject kv)
  assume "data_shape j"
  with JObject obtain tj sj where tj: "map_of kv ''tags'' = Some tj" "is_string_array tj"
    and sj: "map_of kv ''summary'' = Some sj" "is_string sj"
    and ij: "case map_of kv ''issues'' of None \<Rightarrow> True | Some v \<Rightarrow> is_string_array v"
    by (auto simp: data_shape_def has_field_def split: option.splits)
  from tj(2) obtain t where t: "as_str_list tj = Some t"
    using is_string_array_as_str_list by blast
  from sj(2) obtain s where s: "as_str sj = Some s"
    using is_string_as_str by blast
  from ij obtain i where
    i: "(case map_of kv ''issues'' of None \<Rightarrow> Some [] | Some ij \<Rightarrow> as_str_list ij) = Some i"
    using is_string_array_as_str_list by (cases "map_of kv ''issues''") auto
  show ?thesis
    by (simp add: JObject validate_DataBlock_def tj(1) sj(1) t s i)
qed (simp_all add: data_shape_def)

lemma required_shape_validates: "required_shape obj \<Longrightarrow> \<exists>a. AgentJSON_of obj = Inr a"
proof (cases obj)
  case (JObject kv)
  assume "required_shape obj"
  with JObject obtain tj mj dj where tj: "map_of kv ''thought'' = Some tj" "is_string tj"
    and mj: "map_of kv ''message'' = Some mj" "is_string mj"
    and dj: "map_of kv ''data'' = Some dj" "data_shape dj"
    by (auto simp: required_shape_def has_field_def split: option.splits)
  from tj(2) obtain th where th: "as_str tj = Some th"
    using is_string_as_str by blast
  from mj(2) obtain m where m: "as_str mj = Some m"
    using is_string_as_str by blast
  from dj(2) obtain d where d: "validate_DataBlock dj = Some d"
    using data_shape_validates by blast
  show ?thesis
    by (simp add: JObject AgentJSON_of_def validate_AgentJSON_def tj(1) mj(1) dj(1) th m d)
qed (simp_all add: required_shape_def)

section \<open>Properties of the JSON Extractor and the Repair Loop\<close>

text \<open>The standard library rejects the expression of line 80: it has no \<open>(?R)\<close>.\<close>

lemma re_compile_brace_pattern:
  "re_compile brace_pattern = Inl (ReError ''unknown extension ?R'')"
  by (simp add: re_compile_def brace_pattern_def re_known_ext_def)

lemma sanitize_json_text_parsed:
  "loads (strip text) = Some obj \<Longrightarrow> sanitize_json_text loads text = Inr (strip text)"
  by (simp add: sanitize_json_text_def)

text \<open>Every text that does not decode makes \<open>sanitize_json_text\<close> raise \<open>re.error\<close>.\<close>

lemma sanitize_json_text_unparsed:
  "loads (strip text) = None \<Longrightarrow>
   sanitize_json_text loads text = Inl (ReError ''unknown extension ?R'')"
  by (simp add: sanitize_json_text_def re_search_def re_compile_brace_pattern)

text \<open>The fallback, built through the validating constructors, is the fixed artifact.\<close>

lemma fallback_fixed:
  "fallback = \<lparr>thought = ''Fallback'', message = default_message,
       data = \<lparr>tags = [], summary = ''Concise summary not provided by the model'',
                issues = [''autofix'']\<rparr>\<rparr>"
  by code_simp

lemma call_agent_first_not_json:
  assumes "llm s sys hum = (Inr raw, s')" and "loads (strip raw) = None"
  shows "call_agent loads llm sys hum m (s, n) =
         (Inl (ReError ''unknown extension ?R''), (s', Suc n))"
  using assms by (simp add: call_agent_def invoke_def sanitize_json_text_unparsed)

lemma call_agent_short_circuit:
  assumes "llm s sys hum = (Inr raw, s')" and "loads (strip raw) = Some obj"
    and "AgentJSON_of obj = Inr a" and "0 \<le> m"
  shows "call_agent loads llm sys hum m (s, n) = (Inr (Some a), (s', Suc n))"
proof -
  from \<open>0 \<le> m\<close> have "[0..m] = 0 # [1..m]"
    by (simp add: upto_rec1)
  moreover have "parse_validate loads (strip raw) = Inr a"
    using assms(2,3) by (simp add: parse_validate_def)
  ultimately show ?thesis
    using assms(1,2) by (simp add: call_agent_def invoke_def sanitize_json_text_parsed)
qed

text \<open>With a negative bound the loop body never runs and the result is \<open>None\<close>.\<close>

lemma call_agent_negative_bound:
  assumes "llm s sys hum = (Inr raw, s')" and "loads (strip raw) = Some obj" and "m < 0"
  shows "call_agent loads llm sys hum m (s, n) = (Inr None, (s', Suc n))"
  using assms by (simp add: call_agent_def invoke_def sanitize_json_text_parsed)

lemma call_agent_backend_raises:
  assumes "fst (llm s sys hum) = Inl e"
  shows "fst (call_agent loads llm sys hum m (s, n)) = Inl e"
  using assms by (cases "llm s sys hum") (simp add: call_agent_def invoke_def)

lemma repair_loop_backend_raises:
  assumes "parse_validate loads cand = Inl err" and "k \<noteq> m"
    and "fst (llm s sys (repair_prompt cand)) = Inl e"
  shows "fst (repair_loop loads llm sys m (k # ks) cand (s, n)) = Inl e"
  using assms by (cases "llm s sys (repair_prompt cand)") (simp add: invoke_def)

text \<open>
  The loop over a range that ends at \<open>max_repairs\<close> invokes the backend at most once per
  value of \<open>k\<close> but the last.
\<close>

lemma repair_loop_calls:
  assumes "ks \<noteq> []" and "last ks = m"
  shows "snd w \<le> snd (snd (repair_loop loads llm sys m ks cand w)) \<and>
         snd (snd (repair_loop loads llm sys m ks cand w)) \<le> snd w + length ks - 1"
  using assms
proof (induction ks arbitrary: cand w)
  case Nil
  then show ?case by simp
next
  case (Cons k ks)
  show ?case
  proof (cases "parse_validate loads cand")
    case (Inr a)
    then show ?thesis by simp
  next
    case (Inl err)
    show ?thesis
    proof (cases "k = m")
      case True
      with Inl show ?thesis by simp
    next
      case False
      with Cons.prems have ne: "ks \<noteq> []" and l: "last ks = m" by auto
      obtain r s' where llm: "llm (fst w) sys (repair_prompt cand) = (r, s')"
        by (cases "llm (fst w) sys (repair_prompt cand)")
      show ?thesis
      proof (cases r)
        case e: (Inl e)
        with Inl False llm ne show ?thesis
          by (cases ks) (simp_all add: invoke_def)
      next
        case raw: (Inr raw)
        show ?thesis
        proof (cases "sanitize_json_text loads raw")
          case e: (Inl e)
          with Inl False llm raw ne show ?thesis
            by (cases ks) (simp_all add: invoke_def)
        next
          case c: (Inr cand')
          from Cons.IH [OF ne l, where cand = cand' and w = "(s', Suc (snd w))"] ne
          show ?thesis
            using Inl False llm raw c by (cases ks) (simp_all add: invoke_def)
        qed
      qed
    qed
  qed
qed

lemma upto_0_last:
  "0 \<le> m \<Longrightarrow> [0..m] \<noteq> [] \<and> last [0..m] = m \<and> butlast [0..m] = [0..m - 1]"
  by (simp add: upto_rec2)

text \<open>One run invokes the backend between once and \<open>max_repairs + 1\<close> times.\<close>

lemma call_agent_calls:
  assumes "0 \<le> m"
  shows "Suc n \<le> snd (snd (call_agent loads llm sys hum m (s, n))) \<and>
         snd (snd (call_agent loads llm sys hum m (s, n))) \<le> n + nat m + 1"
proof -
  obtain r s' where llm: "llm s sys hum = (r, s')"
    by (cases "llm s sys hum")
  show ?thesis
  proof (cases r)
    case (Inl e)
    with llm show ?thesis by (simp add: call_agent_def invoke_def)
  next
    case raw: (Inr raw)
    show ?thesis
    proof (cases "sanitize_json_text loads raw")
      case (Inl e)
      with llm raw show ?thesis by (simp add: call_agent_def invoke_def)
    next
      case (Inr cand)
      have ca: "call_agent loads llm sys hum m (s, n) =
                repair_loop loads llm sys m [0..m] cand (s', Suc n)"
        using llm raw Inr by (simp add: call_agent_def invoke_def)
      from assms have "[0..m] \<noteq> []" and "last [0..m] = m"
        using upto_0_last by blast+
      from repair_loop_calls [OF this, where w = "(s', Suc n)" and cand = cand
          and loads = loads and llm = llm and sys = sys] assms
      show ?thesis unfolding ca by (simp add: nat_add_distrib)
    qed
  qed
qed

text \<open>
  A backend whose every response decodes as JSON and fails validation: the run makes
  exactly \<open>max_repairs + 1\<close> invocations and returns the fallback.
\<close>

lemma repair_loop_exhausted:
  assumes inv: "\<forall>s sys hum. \<exists>raw s' obj err. llm s sys hum = (Inr raw, s') \<and>
                  loads (strip raw) = Some obj \<and> AgentJSON_of obj = Inl err"
    and "ks \<noteq> []" and "last ks = m" and "m \<notin> set (butlast ks)"
    and "parse_validate loads cand = Inl err"
  shows "\<exists>s'. repair_loop loads llm sys m ks cand (s, n) =
               (Inr (Some fallback), (s', n + length ks - 1))"
  using assms(2-)
proof (induction ks arbitrary: cand s n err)
  case Nil
  then show ?case by simp
next
  case (Cons k ks)
  show ?case
  proof (cases "ks = []")
    case True
    with Cons.prems show ?thesis by simp
  next
    case False
    with Cons.prems have km: "k \<noteq> m" and l: "last ks = m" and b: "m \<notin> set (butlast ks)"
      by auto
    from inv [rule_format, of s sys "repair_prompt cand"]
    obtain raw s' obj err' where llm: "llm s sys (repair_prompt cand) = (Inr raw, s')"
      and p: "loads (strip raw) = Some obj" and v: "AgentJSON_of obj = Inl err'"
      by blast
    have san: "sanitize_json_text loads raw = Inr (strip raw)"
      using p by (simp add: sanitize_json_text_def)
    have pv: "parse_validate loads (strip raw) = Inl err'"
      using p v by (simp add: parse_validate_def)
    from Cons.IH [OF False l b pv, where s = s' and n = "Suc n"]
    obtain s'' where "repair_loop loads llm sys m ks (strip raw) (s', Suc n) =
                      (Inr (Some fallback), (s'', Suc n + length ks - 1))"
      by blast
    with False show ?thesis
      using Cons.prems(4) km llm san by (cases ks) (simp_all add: invoke_def)
  qed
qed

lemma call_agent_exhausted:
  assumes inv: "\<forall>s sys hum. \<exists>raw s' obj err. llm s sys hum = (Inr raw, s') \<and>
                  loads (strip raw) = Some obj \<and> AgentJSON_of obj = Inl err"
    and "0 \<le> m"
  shows "\<exists>s'. call_agent loads llm sys hum m (s, n) =
               (Inr (Some fallback), (s', n + nat m + 1))"
proof -
  from inv [rule_format, of s sys hum]
  obtain raw s1 obj err where llm: "llm s sys hum = (Inr raw, s1)"
    and p: "loads (strip raw) = Some obj" and v: "AgentJSON_of obj = Inl err"
    by blast
  have san: "sanitize_json_text loads raw = Inr (strip raw)"
    using p by (simp add: sanitize_json_text_def)
  have pv: "parse_validate loads (strip raw) = Inl err"
    using p v by (simp add: parse_validate_def)
  from \<open>0 \<le> m\<close> have u: "[0..m] \<noteq> []" "last [0..m] = m" "m \<notin> set (butlast [0..m])"
    using upto_0_last [of m] by auto
  from repair_loop_exhausted [OF inv u pv, where sys = sys and s = s1 and n = "Suc n"]
  obtain s' where "repair_loop loads llm sys m [0..m] (strip raw) (s1, Suc n) =
                   (Inr (Some fallback), (s', Suc n + length [0..m] - 1))"
    by blast
  with \<open>0 \<le> m\<close> show ?thesis
    using llm san by (simp add: call_agent_def invoke_def nat_add_distrib)
qed

section \<open>The claims\<close>

subsection \<open>JSON Extractor\<close>

text \<open>
  C1 (as stated, refuted). The claim: \<open>sanitize_json_text\<close> never raises, returns an
  input that parses as JSON unchanged, and returns the input unchanged when it holds no
  balanced object. On the sample text followed by a newline, which \<open>json.loads\<close>
  accepts, the result is the text without the newline; on the same JSON behind a line of
  prose, which does not parse, the result is \<open>re.error\<close>, not a string.
\<close>

theorem C1_extractor_counterexample:
  "sample_loads (sample_text @ nl) = Some sample_object \<and>
   sanitize_json_text sample_loads (sample_text @ nl) = Inr sample_text \<and>
   sample_text \<noteq> sample_text @ nl \<and>
   sample_loads (strip (''Here is the JSON: '' @ sample_text)) = None \<and>
   sanitize_json_text sample_loads (''Here is the JSON: '' @ sample_text) =
     Inl (ReError ''unknown extension ?R'')"
  by code_simp

text \<open>
  C1 (amended). For every input whose form without leading and trailing whitespace
  parses as JSON, \<open>sanitize_json_text\<close> returns that stripped form; an input without
  surrounding whitespace that parses is therefore returned unchanged.
\<close>

theorem C1_extractor_parsed_input:
  assumes "loads (strip input) = Some obj"
  shows "sanitize_json_text loads input = Inr (strip input)"
  using assms by (rule sanitize_json_text_parsed)

theorem C1_extractor_parsed_input_witness:
  "sample_loads (strip (''  {} '' @ nl)) = Some (JObject []) \<and>
   sanitize_json_text sample_loads (''  {} '' @ nl) = Inr ''{}''"
proof -
  have s: "strip (''  {} '' @ nl) = ''{}''" by code_simp
  have h: "sample_loads (strip (''  {} '' @ nl)) = Some (JObject [])"
    unfolding s by code_simp
  from C1_extractor_parsed_input [where loads = sample_loads and input = "''  {} '' @ nl"
      and obj = "JObject []"] h
  have "sanitize_json_text sample_loads (''  {} '' @ nl) = Inr (strip (''  {} '' @ nl))"
    by blast
  with h show ?thesis
    unfolding s by blast
qed

subsection \<open>Repair Loop\<close>

text \<open>
  C2 (the code departs from the claim). The claim: on malformed content \<open>call_agent\<close>
  never raises; it returns a validated response or, after the repairs, the fallback. The
  first response here is the sample JSON inside a code fence, and the backend would send
  the bare JSON on a repair request: \<open>call_agent\<close> raises \<open>re.error\<close> out of
  \<open>sanitize_json_text\<close> after the first invocation, with the repair never requested.
\<close>

theorem C2_fenced_response_raises:
  "call_agent sample_loads scripted_llm ''You are the Planner.'' ''TITLE: Sleep'' 2
     ([Inr (''```json'' @ nl @ sample_text @ nl @ ''```''), Inr sample_text], 0) =
   (Inl (ReError ''unknown extension ?R''), ([Inr sample_text], 1))"
  by code_simp

text \<open>
  C3 (the code departs from the claim). The claim: with a backend that always returns
  text failing parse or validation, \<open>call_agent\<close> makes exactly \<open>max_repairs + 1\<close>
  invocations and returns the fallback. With a backend that always answers in prose and
  \<open>max_repairs = 2\<close>, the run ends after one invocation, raising \<open>re.error\<close>. For
  responses that decode as JSON and fail validation the count and the fallback are as
  claimed (\<open>call_agent_exhausted\<close>), and every run with \<open>max_repairs \<ge> 0\<close> makes between
  one and \<open>max_repairs + 1\<close> invocations (\<open>call_agent_calls\<close>).
\<close>

theorem C3_prose_backend_raises_after_one_call:
  "call_agent sample_loads (constant_llm ''I cannot help with that.'')
     ''You are the Planner.'' ''TITLE: Sleep'' 2 ((), 0) =
   (Inl (ReError ''unknown extension ?R''), ((), 1))"
  by code_simp

text \<open>
  C6. If the first response of the backend, stripped, decodes as JSON and the decoded
  value passes validation, \<open>call_agent\<close> has made exactly one invocation when it ends,
  and for every \<open>max_repairs \<ge> 0\<close> it returns the validated \<open>AgentJSON\<close> built from
  that response.
\<close>

theorem C6_short_circuit:
  assumes "llm s sys hum = (Inr raw, s')" and "loads (strip raw) = Some obj"
    and "AgentJSON_of obj = Inr a"
  shows "snd (call_agent loads llm sys hum m (s, n)) = (s', Suc n) \<and>
         (0 \<le> m \<longrightarrow> fst (call_agent loads llm sys hum m (s, n)) = Inr (Some a))"
proof (cases "0 \<le> m")
  case True
  with assms show ?thesis by (simp add: call_agent_short_circuit)
next
  case False
  with assms show ?thesis by (simp add: call_agent_negative_bound)
qed

theorem C6_short_circuit_witness:
  "scripted_llm [Inr (sample_text @ nl)] ''You are the Planner.'' ''TITLE: Sleep'' =
     (Inr (sample_text @ nl), []) \<and>
   sample_loads (strip (sample_text @ nl)) = Some sample_object \<and>
   AgentJSON_of sample_object = Inr sample_validated \<and>
   snd (call_agent sample_loads scripted_llm ''You are the Planner.'' ''TITLE: Sleep'' 2
          ([Inr (sample_text @ nl)], 0)) = ([], 1) \<and>
   fst (call_agent sample_loads scripted_llm ''You are the Planner.'' ''TITLE: Sleep'' 2
          ([Inr (sample_text @ nl)], 0)) = Inr (Some sample_validated)"
proof -
  have h1: "scripted_llm [Inr (sample_text @ nl)] ''You are the Planner.'' ''TITLE: Sleep'' =
              (Inr (sample_text @ nl), [])"
    by simp
  have h2: "sample_loads (strip (sample_text @ nl)) = Some sample_object"
    by code_simp
  have h3: "AgentJSON_of sample_object = Inr sample_validated"
    by code_simp
  from C6_short_circuit [where llm = scripted_llm and s = "[Inr (sample_text @ nl)]"
      and sys = "''You are the Planner.''" and hum = "''TITLE: Sleep''"
      and raw = "sample_text @ nl" and s' = "[]" and loads = sample_loads
      and obj = sample_object and a = sample_validated and m = 2 and n = 0]
    h1 h2 h3
  have "snd (call_agent sample_loads scripted_llm ''You are the Planner.'' ''TITLE: Sleep'' 2
               ([Inr (sample_text @ nl)], 0)) = ([], Suc 0) \<and>
        ((0::int) \<le> 2 \<longrightarrow>
         fst (call_agent sample_loads scripted_llm ''You are the Planner.'' ''TITLE: Sleep'' 2
               ([Inr (sample_text @ nl)], 0)) = Inr (Some sample_validated))"
    by blast
  with h1 h2 h3 show ?thesis
    by simp
qed

text \<open>
  C7. An exception of the backend is not absorbed: when the first invocation raises,
  \<open>call_agent\<close> raises the same exception; and when, in any iteration of the loop, the
  candidate has failed and the repair invocation raises, the loop, and with it
  \<open>call_agent\<close>, raises that exception instead of repairing or returning the fallback.
\<close>

theorem C7_backend_error_propagates:
  "(fst (llm s sys hum) = Inl e \<longrightarrow>
      fst (call_agent loads llm sys hum m (s, n)) = Inl e) \<and>
   (parse_validate loads cand = Inl err \<and> k \<noteq> m \<and>
    fst (llm s sys (repair_prompt cand)) = Inl e \<longrightarrow>
      fst (repair_loop loads llm sys m (k # ks) cand (s, n)) = Inl e)"
  using call_agent_backend_raises [of llm s sys hum e loads m n]
    repair_loop_backend_raises [of loads cand err k m llm s sys e ks n]
  by blast

theorem C7_backend_error_propagates_witness:
  "fst (scripted_llm [Inl (BackendError ''timeout'')] ''sys'' ''hum'') =
     Inl (BackendError ''timeout'') \<and>
   fst (call_agent sample_loads scripted_llm ''sys'' ''hum'' 2
          ([Inl (BackendError ''timeout'')], 0)) = Inl (BackendError ''timeout'') \<and>
   parse_validate sample_loads ''{}'' = Inl ValidationError \<and>
   fst (repair_loop sample_loads scripted_llm ''sys'' 2 [0, 1, 2] ''{}''
          ([Inl (BackendError ''timeout'')], 1)) = Inl (BackendError ''timeout'')"
proof -
  have h1: "fst (scripted_llm [Inl (BackendError ''timeout'')] ''sys'' ''hum'') =
              Inl (BackendError ''timeout'')"
    by simp
  have h2: "parse_validate sample_loads ''{}'' = Inl ValidationError"
    by code_simp
  have h3: "fst (scripted_llm [Inl (BackendError ''timeout'')] ''sys'' (repair_prompt ''{}'')) =
              Inl (BackendError ''timeout'')"
    by simp
  have h4: "(0::int) \<noteq> 2" by simp
  from C7_backend_error_propagates [of scripted_llm "[Inl (BackendError ''timeout'')]"
      "''sys''" "''hum''" "BackendError ''timeout''" sample_loads 2 0]
    h1
  have c1: "fst (call_agent sample_loads scripted_llm ''sys'' ''hum'' 2
              ([Inl (BackendError ''timeout'')], 0)) = Inl (BackendError ''timeout'')"
    by blast
  from C7_backend_error_propagates [where llm = scripted_llm
      and s = "[Inl (BackendError ''timeout'')]" and sys = "''sys''"
      and e = "BackendError ''timeout''" and loads = sample_loads and m = 2 and k = 0
      and cand = "''{}''" and err = ValidationError and ks = "[1, 2]" and n = 1]
    h2 h3 h4
  have c2: "fst (repair_loop sample_loads scripted_llm ''sys'' 2 [0, 1, 2] ''{}''
              ([Inl (BackendError ''timeout'')], 1)) = Inl (BackendError ''timeout'')"
    by blast
  from h1 h2 c1 c2 show ?thesis by blast
qed

subsection \<open>Topic Sanitizer\<close>

text \<open>
  C4 (as stated, refuted). The claim: the result of \<open>demeta_tags\<close> has at most three
  elements and none of them, lowercased, is in the meta-ban set. With no tags and the
  title \<open>json\<close> the word \<open>json\<close> is backfilled from the title; and the tags
  \<open>JSON\<close>, \<open>Agent\<close>, \<open>LLM\<close> are returned as they are, since the function compares each
  tag as it is.
\<close>

theorem C4_sanitizer_counterexample:
  "demeta_tags [] ''json'' [] = [''json''] \<and> ''json'' \<in> meta_ban \<and>
   demeta_tags [''JSON'', ''Agent'', ''LLM''] ''Sleep'' ''sleep habits'' =
     [''JSON'', ''Agent'', ''LLM''] \<and>
   lower ''JSON'' \<in> meta_ban"
  by code_simp

text \<open>
  C4 (amended). For all tag lists, titles and contents, the result of \<open>demeta_tags\<close> has
  at most three elements, and each of them is either an input tag that is not in the
  meta-ban set, compared exactly as it is, or a word backfilled from the lowercased title
  and content; backfilled words are not compared with the meta-ban set.
\<close>

theorem C4_sanitizer_result:
  "length (demeta_tags tgs title content) \<le> 3 \<and>
   set (demeta_tags tgs title content) \<subseteq>
     {t \<in> set tgs. t \<notin> meta_ban} \<union> set (topic_words title content)"
  using demeta_tags_length [of tgs title content] demeta_tags_origin [of _ tgs title content]
  by blast

theorem C4_sanitizer_result_witness:
  "demeta_tags [''json'', ''health''] ''Sleep and Focus''
     ''sleep habits improve focus and memory'' = [''health'', ''sleep'', ''focus''] \<and>
   set [''health'', ''sleep'', ''focus''] \<subseteq>
     {t \<in> set [''json'', ''health'']. t \<notin> meta_ban} \<union>
     set (topic_words ''Sleep and Focus'' ''sleep habits improve focus and memory'')"
proof -
  have r: "demeta_tags [''json'', ''health''] ''Sleep and Focus''
             ''sleep habits improve focus and memory'' = [''health'', ''sleep'', ''focus'']"
    by code_simp
  from C4_sanitizer_result [of "[''json'', ''health'']" "''Sleep and Focus''"
      "''sleep habits improve focus and memory''"]
  show ?thesis unfolding r by blast
qed

text \<open>
  C8. For every list of three tags none of which is in the meta-ban set, and every title
  and content, \<open>demeta_tags\<close> returns the list unchanged.
\<close>

theorem C8_sanitizer_idempotent:
  assumes "length tgs = 3" and "\<forall>t\<in>set tgs. t \<notin> meta_ban"
  shows "demeta_tags tgs title content = tgs"
  using assms by (rule demeta_tags_unchanged)

theorem C8_sanitizer_idempotent_witness:
  "length [''health'', ''sleep'', ''focus''] = 3 \<and>
   ''health'' \<notin> meta_ban \<and> ''sleep'' \<notin> meta_ban \<and> ''focus'' \<notin> meta_ban \<and>
   demeta_tags [''health'', ''sleep'', ''focus''] ''Sleep and Focus''
     ''sleep habits improve focus and memory'' = [''health'', ''sleep'', ''focus'']"
proof -
  have a: "length [''health'', ''sleep'', ''focus''] = 3" by simp
  have b: "''health'' \<notin> meta_ban \<and> ''sleep'' \<notin> meta_ban \<and> ''focus'' \<notin> meta_ban"
    by (simp add: meta_ban_def)
  then have c: "\<forall>t\<in>set [''health'', ''sleep'', ''focus'']. t \<notin> meta_ban" by simp
  from C8_sanitizer_idempotent [OF a c] a b show ?thesis by blast
qed

subsection \<open>Schema Model\<close>

text \<open>
  C5. Every decoded value of the required shape, whatever the number of its tags, passes
  validation, and the \<open>AgentJSON\<close> returned has at most three tags and a summary of at
  most 25 words, as \<open>word_count\<close> counts them.
\<close>

theorem C5_validated_bounds:
  assumes "required_shape obj"
  shows "\<exists>a. AgentJSON_of obj = Inr a \<and> length (tags (data a)) \<le> 3 \<and>
             word_count (summary (data a)) \<le> 25"
  using required_shape_validates [OF assms] AgentJSON_of_bounds by blast

theorem C5_validated_bounds_witness:
  "required_shape long_object \<and>
   (\<exists>a. AgentJSON_of long_object = Inr a \<and> length (tags (data a)) \<le> 3 \<and>
        word_count (summary (data a)) \<le> 25)"
proof -
  have h: "required_shape long_object" by code_simp
  from C5_validated_bounds [OF h] h show ?thesis by blast
qed

text \<open>
  C9. The message of every \<open>AgentJSON\<close> that validation returns is not empty: it is the
  incoming message stripped of whitespace, or the default message when nothing is left.
  The same holds for an \<open>AgentJSON\<close> built by the constructor.
\<close>

theorem C9_message_never_empty:
  assumes "AgentJSON_of obj = Inr a"
  shows "message a \<noteq> [] \<and>
         (\<exists>kv m. obj = JObject kv \<and> map_of kv ''message'' = Some (JString m) \<and>
                 message a = (if strip m = [] then default_message else strip m)) \<and>
         message (new_AgentJSON th m0 d) \<noteq> []"
proof -
  from assms obtain kv where kv: "obj = JObject kv" "validate_AgentJSON kv = Some a"
    using AgentJSON_of_Inr by blast
  then obtain m where m: "map_of kv ''message'' = Some (JString m)"
      "message a = ensure_message m"
    using validate_AgentJSON_message by blast
  from m(2) have "message a \<noteq> []"
    by (simp add: ensure_message_nonempty)
  moreover have "message (new_AgentJSON th m0 d) \<noteq> []"
    by (simp add: new_AgentJSON_def ensure_message_nonempty)
  ultimately show ?thesis
    using kv(1) m by (auto simp: ensure_message_eq)
qed

theorem C9_message_never_empty_witness:
  "AgentJSON_of sample_object = Inr sample_validated \<and>
   map_of [(''thought'', JString ''x''), (''message'', JString [])] ''message'' =
     Some (JString []) \<and>
   message sample_validated = default_message \<and> message sample_validated \<noteq> []"
proof -
  have h: "AgentJSON_of sample_object = Inr sample_validated" by code_simp
  have d: "message sample_validated = default_message"
    by (simp add: sample_validated_def)
  from C9_message_never_empty [OF h] h d show ?thesis by simp
qed

text \<open>
  C10. In \<open>_three_tags\<close> the meta-ban test comes before the stopwords are removed: the
  tag \<open>the json\<close> is not in the meta-ban set, passes the test and becomes \<open>json\<close>. The
  object validates, and its validated tags hold an element of the meta-ban set.
\<close>

theorem C10_validated_tag_in_meta_ban:
  "AgentJSON_of the_json_object =
     Inr \<lparr>thought = ''t'', message = ''m'',
          data = \<lparr>tags = [''json''], summary = ''s'', issues = []\<rparr>\<rparr> \<and>
   ''the json'' \<notin> meta_ban \<and> ''json'' \<in> meta_ban"
  by code_simp

end
